theory Spec2Isabelle
  imports Complex_Main "HOL-Library.Multiset"
begin

section \<open>Data model\<close>

text \<open>
  A \<open>MunicipalTree\<close> (tree_utilities.py) stores the parsed fields of one record.
  Python floats are modelled as real numbers: finite values with exact arithmetic.
  The field \<open>_id\<close> is called \<open>tree_id\<close> here.
\<close>

record MunicipalTree =
  tree_id :: int
  ward :: int
  species :: string
  diameter :: int
  lon :: real
  lat :: real

text \<open>
  A value of Python type \<open>Optional[_KDTNode]\<close> (kdtree.py): \<open>NoNode\<close> is \<open>None\<close>, and
  \<open>KDTNode t p l r\<close> is a node with \<open>_tree = t\<close>, \<open>_pivot = p\<close>, \<open>_left = l\<close>, \<open>_right = r\<close>.
\<close>

datatype KDTNode = NoNode | KDTNode MunicipalTree real KDTNode KDTNode

section \<open>argsort\<close>

text \<open>
  \<open>sorted(range(len(seq)), key=seq.__getitem__)\<close>: Python's \<open>sorted\<close> is a stable sort by
  key, as is \<open>sort_key\<close>.
\<close>

definition argsort :: "('a::linorder) list \<Rightarrow> nat list" where
  "argsort seq = sort_key (\<lambda>i. seq ! i) [0..<length seq]"

section \<open>KDTree.build_tree\<close>

text \<open>The key \<open>(tree.lat, tree.lon)[dim]\<close> of the sort and of the pivot (\<open>dimn\<close> is the
  source's \<open>dim\<close>).\<close>

definition axis :: "nat \<Rightarrow> MunicipalTree \<Rightarrow> real" where
  "axis dimn t = [lat t, lon t] ! dimn"

text \<open>
  The value returned by \<open>build_tree(data, depth)\<close>. The list \<open>sorted_data\<close> is the
  contents of \<open>data\<close> after \<open>data.sort(key=...)\<close>; the two slices are
  \<open>data[:median_idx]\<close> and \<open>data[median_idx + 1:]\<close>.
\<close>

function build_tree :: "MunicipalTree list \<Rightarrow> nat \<Rightarrow> KDTNode" where
  "build_tree data depth =
     (if data = [] then NoNode
      else
        let dimn = depth mod 2;
            sorted_data = sort_key (axis dimn) data;
            median_idx = length sorted_data div 2;
            median_tree = sorted_data ! median_idx;
            pivot = axis dimn median_tree
        in KDTNode median_tree pivot
             (build_tree (take median_idx sorted_data) (depth + 1))
             (build_tree (drop (median_idx + 1) sorted_data) (depth + 1)))"
  by pat_completeness auto
termination
  by (relation "measure (\<lambda>(data, depth). length data)") (auto simp: neq_Nil_conv)

declare build_tree.simps [simp del]

section \<open>KDTree.lookup\<close>

text \<open>
  Python's \<open>round(x, 5)\<close> on exact values: the nearest multiple of \<open>10\<^sup>-\<^sup>5\<close>, a tie going
  to the even multiple.
\<close>

definition round_half_even :: "real \<Rightarrow> int" where
  "round_half_even x =
     (let f = \<lfloor>x\<rfloor>; d = x - of_int f
      in if d < 1 / 2 then f else if 1 / 2 < d then f + 1
         else if even f then f else f + 1)"

definition round5 :: "real \<Rightarrow> real" where
  "round5 x = of_int (round_half_even (x * 100000)) / 100000"

fun lookup_recursive :: "KDTNode \<Rightarrow> real \<Rightarrow> real \<Rightarrow> nat \<Rightarrow> bool" where
  "lookup_recursive NoNode la lo depth = False"
| "lookup_recursive (KDTNode t pivot l r) la lo depth =
     (if round5 la = round5 (lat t) \<and> round5 lo = round5 (lon t) then True
      else
        let dimn = depth mod 2
        in if (if dimn = 0 then la else lo) < pivot
           then lookup_recursive l la lo (depth + 1)
           else lookup_recursive r la lo (depth + 1))"

definition lookup :: "KDTNode \<Rightarrow> real \<Rightarrow> real \<Rightarrow> bool" where
  "lookup kd la lo = lookup_recursive kd la lo 0"

section \<open>KDTree.get_nearest\<close>

text \<open>
  The second component of \<open>best\<close> is a float that starts as \<open>float('inf')\<close>:
  \<open>PosInf\<close> is that value, \<open>Finite d\<close> a finite distance. \<open>lt x b\<close> is the comparison \<open>x < b\<close>.
\<close>

datatype bound = PosInf | Finite real

fun lt :: "real \<Rightarrow> bound \<Rightarrow> bool" where
  "lt x PosInf = True"
| "lt x (Finite b) = (x < b)"

type_synonym best = "MunicipalTree option \<times> bound"

definition euclid_dist :: "MunicipalTree \<Rightarrow> real \<Rightarrow> real \<Rightarrow> real" where
  "euclid_dist t la lo = sqrt ((lat t - la)\<^sup>2 + (lon t - lo)\<^sup>2)"

fun get_nearest_recursive :: "KDTNode \<Rightarrow> real \<Rightarrow> real \<Rightarrow> nat \<Rightarrow> best \<Rightarrow> best" where
  "get_nearest_recursive NoNode la lo depth best = best"
| "get_nearest_recursive (KDTNode t pivot l r) la lo depth best =
     (let d = euclid_dist t la lo;
          best1 = (if lt d (snd best) then (Some t, Finite d) else best);
          dimn = depth mod 2;
          q = (if dimn = 0 then la else lo);
          best2 = (if q < pivot
                   then get_nearest_recursive l la lo (depth + 1) best1
                   else get_nearest_recursive r la lo (depth + 1) best1)
      in if lt ((pivot - q)\<^sup>2) (snd best2)
         then (if q < pivot
               then get_nearest_recursive r la lo (depth + 1) best2
               else get_nearest_recursive l la lo (depth + 1) best2)
         else best2)"

definition get_nearest :: "KDTNode \<Rightarrow> real \<Rightarrow> real \<Rightarrow> MunicipalTree option" where
  "get_nearest kd la lo = fst (get_nearest_recursive kd la lo 0 (None, PosInf))"

text \<open>\<open>KDTree.__init__\<close>: the root stored in \<open>self.KDTree\<close>.\<close>

definition KDTree_init :: "MunicipalTree list \<Rightarrow> KDTNode" where
  "KDTree_init data = build_tree data 0"

section \<open>build_tree on a store of list objects\<close>

text \<open>
  \<open>data.sort(...)\<close> sorts the list object that the caller passed, and a slice
  \<open>data[i:j]\<close> is a new list object. To follow which object is changed, list objects live
  in a store: \<open>contents s a\<close> is the contents of the list object at address \<open>a\<close>, and
  \<open>fresh s\<close> is the first address not yet in use.
\<close>

record store =
  contents :: "nat \<Rightarrow> MunicipalTree list"
  fresh :: nat

text \<open>\<open>data.sort(key=key)\<close> on the object at address \<open>a\<close>: a stable sort, in place.\<close>

definition list_sort :: "(MunicipalTree \<Rightarrow> real) \<Rightarrow> nat \<Rightarrow> store \<Rightarrow> store" where
  "list_sort key a s = s\<lparr>contents := (contents s)(a := sort_key key (contents s a))\<rparr>"

text \<open>A slice allocates a new list object, at address \<open>fresh s\<close>.\<close>

definition new_list :: "MunicipalTree list \<Rightarrow> store \<Rightarrow> store" where
  "new_list xs s = s\<lparr>contents := (contents s)(fresh s := xs), fresh := fresh s + 1\<rparr>"

text \<open>
  \<open>build_tree(data, depth)\<close>, where \<open>data\<close> is the address of the list passed in: the final
  store and the node returned. The right slice is read from \<open>data\<close> after the first
  recursive call has returned, as in the source.
\<close>

function build_tree_store :: "store \<Rightarrow> nat \<Rightarrow> nat \<Rightarrow> store \<times> KDTNode" where
  "build_tree_store s data depth =
     (if contents s data = [] then (s, NoNode)
      else
        let dimn = depth mod 2;
            s1 = list_sort (axis dimn) data s;
            median_idx = length (contents s1 data) div 2;
            median_tree = contents s1 data ! median_idx;
            pivot = axis dimn median_tree;
            left_slice = fresh s1;
            s2 = new_list (take median_idx (contents s1 data)) s1;
            res_left = build_tree_store s2 left_slice (depth + 1);
            s3 = fst res_left;
            right_slice = fresh s3;
            s4 = new_list (drop (median_idx + 1) (contents s3 data)) s3;
            res_right = build_tree_store s4 right_slice (depth + 1)
        in (fst res_right, KDTNode median_tree pivot (snd res_left) (snd res_right)))"
  by pat_completeness auto

text \<open>
  For termination: where the function returns, no list object is longer afterwards than
  it was before or than the list passed in.
\<close>

lemma build_tree_store_length_bound:
  "build_tree_store_dom (s, data, depth) \<Longrightarrow>
   length (contents (fst (build_tree_store s data depth)) b)
     \<le> max (length (contents s b)) (length (contents s data))"
proof (induction s data depth arbitrary: b rule: build_tree_store.pinduct)
  case (1 s data depth)
  show ?case
  proof (cases "contents s data = []")
    case True
    then show ?thesis using "1.hyps" by (simp add: build_tree_store.psimps)
  next
    case False
    define n where "n = length (contents s data)"
    define m where "m = n div 2"
    define s1 where "s1 = list_sort (axis (depth mod 2)) data s"
    define s2 where "s2 = new_list (take m (contents s1 data)) s1"
    define s3 where "s3 = fst (build_tree_store s2 (fresh s1) (depth + 1))"
    define s4 where "s4 = new_list (drop (m + 1) (contents s3 data)) s3"
    define s5 where "s5 = fst (build_tree_store s4 (fresh s3) (depth + 1))"
    have len1: "length (contents s1 data) = n"
      by (simp add: s1_def list_sort_def n_def)
    have m_eq: "length (contents s1 data) div 2 = m"
      by (simp add: len1 m_def)
    have res: "fst (build_tree_store s data depth) = s5"
      using False "1.hyps"
      by (simp add: build_tree_store.psimps Let_def s5_def s4_def s3_def s2_def s1_def[symmetric] m_eq)
    have ih1: "length (contents s3 c) \<le> max (length (contents s2 c)) (length (contents s2 (fresh s1)))" for c
      unfolding s3_def
      using "1.IH"(1)[OF False refl refl refl refl refl refl refl, of c]
      by (simp add: s2_def s1_def[symmetric] m_eq)
    have ih2: "length (contents s5 c) \<le> max (length (contents s4 c)) (length (contents s4 (fresh s3)))" for c
      unfolding s5_def
      using "1.IH"(2)[OF False refl refl refl refl refl refl refl refl refl refl refl, of c]
      by (simp add: s4_def s3_def s2_def s1_def[symmetric] m_eq)
    have b1: "length (contents s1 c) \<le> max (length (contents s c)) n" for c
      by (simp add: s1_def list_sort_def n_def)
    have b2: "length (contents s2 c) \<le> max (length (contents s c)) n" for c
      using b1[of c] len1 by (auto simp: s2_def new_list_def)
    have b3: "length (contents s3 c) \<le> max (length (contents s c)) n" for c
      using ih1[of c] b2[of c] b2[of "fresh s1"] len1
      by (simp add: s2_def new_list_def)
    have b3d: "length (contents s3 data) \<le> n"
      using b3[of data] by (simp add: n_def)
    have b4: "length (contents s4 c) \<le> max (length (contents s c)) n" for c
      using b3[of c] b3d by (auto simp: s4_def new_list_def)
    have b4f: "length (contents s4 (fresh s3)) \<le> n"
      using b3d by (simp add: s4_def new_list_def)
    have "length (contents s5 b) \<le> max (length (contents s b)) n"
      using ih2[of b] b4[of b] b4f by simp
    then show ?thesis by (simp add: res n_def)
  qed
qed

termination build_tree_store
proof (relation "measure (\<lambda>(s, data, depth). length (contents s data))", goal_cases)
  case 1
  then show ?case by simp
next
  case (2 s data depth)
  then show ?case
    by (simp add: new_list_def list_sort_def neq_Nil_conv)
next
  case (3 s data depth dimn s1 median_idx median_tree pivot left_slice s2 res_left s3 right_slice s4)
  have ne: "contents s data \<noteq> []" by (rule 3(1))
  have s1: "s1 = list_sort (axis dimn) data s" by (rule 3(3))
  have s2: "s2 = new_list (take median_idx (contents s1 data)) s1" by (rule 3(8))
  have ls: "left_slice = fresh s1" by (rule 3(7))
  have res: "res_left = build_tree_store s2 left_slice (depth + 1)" by (rule 3(9))
  have s3: "s3 = fst res_left" by (rule 3(10))
  have s4: "s4 = new_list (drop (median_idx + 1) (contents s3 data)) s3" by (rule 3(12))
  have rs: "right_slice = fresh s3" by (rule 3(11))
  have dom: "build_tree_store_dom (s2, left_slice, depth + 1)" by (rule 3(13))
  have n1: "1 \<le> length (contents s data)"
    using ne by (simp add: Suc_le_eq)
  have len1: "length (contents s1 data) = length (contents s data)"
    by (simp add: s1 list_sort_def)
  have bnd: "length (contents s3 data) \<le> max (length (contents s2 data)) (length (contents s2 left_slice))"
    unfolding s3 res by (rule build_tree_store_length_bound[OF dom])
  have "length (contents s2 data) \<le> length (contents s data)"
    using len1 by (auto simp: s2 new_list_def)
  moreover have "length (contents s2 left_slice) \<le> length (contents s data)"
    using len1 by (auto simp: s2 ls new_list_def)
  ultimately have "length (contents s3 data) \<le> length (contents s data)"
    using bnd by linarith
  moreover have "length (contents s4 right_slice) = length (contents s3 data) - (median_idx + 1)"
    by (simp add: s4 rs new_list_def)
  ultimately show ?case
    using n1 by simp
qed


declare build_tree_store.simps [simp del]


section \<open>Errors: the operations with their exceptions\<close>



subsection \<open>Float overflow\<close>








subsection \<open>Attributes of a node that may be None\<close>









subsection \<open>Indexing\<close>










section \<open>Observations on a tree\<close>

text \<open>The records stored in a tree, its number of nodes and its height.\<close>

fun records :: "KDTNode \<Rightarrow> MunicipalTree list" where
  "records NoNode = []"
| "records (KDTNode t pivot l r) = t # records l @ records r"

fun num_nodes :: "KDTNode \<Rightarrow> nat" where
  "num_nodes NoNode = 0"
| "num_nodes (KDTNode t pivot l r) = 1 + num_nodes l + num_nodes r"



text \<open>
  The partition invariant as the docstring of \<open>_KDTNode\<close> and the specification state it: at
  every node, the records of the left subtree are strictly below the pivot on the node's
  axis, and the records of the right subtree are at or above it.
\<close>

fun partition_invariant :: "nat \<Rightarrow> KDTNode \<Rightarrow> bool" where
  "partition_invariant depth NoNode = True"
| "partition_invariant depth (KDTNode t pivot l r) =
     (list_all (\<lambda>x. axis (depth mod 2) x < pivot) (records l) \<and>
      list_all (\<lambda>x. pivot \<le> axis (depth mod 2) x) (records r) \<and>
      partition_invariant (depth + 1) l \<and> partition_invariant (depth + 1) r)"

text \<open>
  The partition that \<open>build_tree\<close> does establish: records equal to the pivot on the node's
  axis may be on either side.
\<close>

fun weak_partition :: "nat \<Rightarrow> KDTNode \<Rightarrow> bool" where
  "weak_partition depth NoNode = True"
| "weak_partition depth (KDTNode t pivot l r) =
     (list_all (\<lambda>x. axis (depth mod 2) x \<le> pivot) (records l) \<and>
      list_all (\<lambda>x. pivot \<le> axis (depth mod 2) x) (records r) \<and>
      weak_partition (depth + 1) l \<and> weak_partition (depth + 1) r)"



text \<open>
  The record \<open>MunicipalTree('1', '1', 'oak', '10', lon, lat)\<close> of the doctests, at a given
  latitude and longitude.
\<close>

definition tree_at :: "real \<Rightarrow> real \<Rightarrow> MunicipalTree" where
  "tree_at la lo =
     \<lparr>tree_id = 1, ward = 1, species = ''oak'', diameter = 10, lon = lo, lat = la\<rparr>"

section \<open>Basic facts about build_tree\<close>

lemma build_tree_Nil: "build_tree [] depth = NoNode"
  by (simp add: build_tree.simps)

lemma build_tree_node:
  assumes "data \<noteq> []"
  shows "build_tree data depth =
    KDTNode (sort_key (axis (depth mod 2)) data ! (length data div 2))
      (axis (depth mod 2) (sort_key (axis (depth mod 2)) data ! (length data div 2)))
      (build_tree (take (length data div 2) (sort_key (axis (depth mod 2)) data)) (depth + 1))
      (build_tree (drop (length data div 2 + 1) (sort_key (axis (depth mod 2)) data)) (depth + 1))"
  using assms by (subst build_tree.simps) (simp add: Let_def)

lemma split_at_median:
  assumes "xs \<noteq> []"
  shows "xs = take (length xs div 2) xs @ xs ! (length xs div 2) # drop (length xs div 2 + 1) xs"
proof -
  have "length xs div 2 < length xs" using assms by simp
  then show ?thesis by (simp add: id_take_nth_drop)
qed

lemma mset_records_build_tree: "mset (records (build_tree data depth)) = mset data"
proof (induction data depth rule: build_tree.induct)
  case (1 data depth)
  show ?case
  proof (cases "data = []")
    case True
    then show ?thesis by (simp add: build_tree_Nil)
  next
    case False
    define s where "s = sort_key (axis (depth mod 2)) data"
    have len: "length s = length data"
      by (simp add: s_def)
    have ne: "s \<noteq> []"
      using False len by (metis length_0_conv)
    have l: "mset (records (build_tree (take (length data div 2) s) (depth + 1))) = mset (take (length data div 2) s)"
      using "1.IH"(1)[OF False refl refl refl refl refl] by (simp add: s_def)
    have r: "mset (records (build_tree (drop (length data div 2 + 1) s) (depth + 1))) = mset (drop (length data div 2 + 1) s)"
      using "1.IH"(2)[OF False refl refl refl refl refl] by (simp add: s_def)
    have "mset s = mset (take (length data div 2) s @ s ! (length data div 2) # drop (length data div 2 + 1) s)"
      using split_at_median[OF ne] len by simp
    then have "mset (records (build_tree data depth)) = mset s"
      using l r by (simp add: build_tree_node[OF False] s_def[symmetric])
    then show ?thesis by (simp add: s_def)
  qed
qed

lemma num_nodes_records: "num_nodes kd = length (records kd)"
  by (induction kd) auto

section \<open>Node count and contents of the built tree\<close>

text \<open>
  C4. For every input collection of N records (empty or not), the tree produced by
  \<open>build_tree\<close> has exactly N nodes, and the multiset of the records stored at its nodes is
  the multiset of the input records: no record is dropped or duplicated.
\<close>

theorem build_tree_keeps_records:
  "num_nodes (build_tree data depth) = length data \<and>
   mset (records (build_tree data depth)) = mset data"
proof -
  have "length (records (build_tree data depth)) = length data"
    using mset_records_build_tree[of data depth] by (metis size_mset)
  then show ?thesis by (simp add: num_nodes_records mset_records_build_tree)
qed

section \<open>The empty index\<close>

text \<open>
  C6. Constructing a KDTree from an empty collection yields the empty index \<open>None\<close>; on it
  \<open>lookup\<close> returns False and \<open>get_nearest\<close> returns \<open>None\<close> for every query point.
\<close>

theorem empty_index:
  "KDTree_init [] = NoNode \<and>
   (\<forall>la lo. lookup (KDTree_init []) la lo = False) \<and>
   (\<forall>la lo. get_nearest (KDTree_init []) la lo = None)"
  by (simp add: KDTree_init_def build_tree_Nil lookup_def get_nearest_def)



section \<open>Height and axis assignment of the built tree\<close>


section \<open>argsort is a stable sorting permutation\<close>

lemma insort_key_stable_order:
  fixes f :: "nat \<Rightarrow> 'a::linorder"
  assumes "sorted_wrt (\<lambda>i j. f i < f j \<or> (f i = f j \<and> i < j)) ys"
    and "\<forall>y\<in>set ys. x < y"
  shows "sorted_wrt (\<lambda>i j. f i < f j \<or> (f i = f j \<and> i < j)) (insort_key f x ys)"
  using assms
proof (induction ys)
  case Nil
  then show ?case by simp
next
  case (Cons y ys)
  show ?case
  proof (cases "f x \<le> f y")
    case True
    have "f x < f z \<or> (f x = f z \<and> x < z)" if "z \<in> set (y # ys)" for z
    proof -
      have "f y \<le> f z" using Cons.prems(1) that by auto
      moreover have "x < z" using Cons.prems(2) that by auto
      ultimately show ?thesis using True by auto
    qed
    then show ?thesis using True Cons.prems(1) by simp
  next
    case False
    have "sorted_wrt (\<lambda>i j. f i < f j \<or> (f i = f j \<and> i < j)) (insort_key f x ys)"
      using Cons by simp
    moreover have "f y < f z \<or> (f y = f z \<and> y < z)" if "z \<in> set (insort_key f x ys)" for z
      using that False Cons.prems(1) by (auto simp: set_insort_key)
    ultimately show ?thesis using False by simp
  qed
qed

lemma sort_key_stable_order:
  fixes f :: "nat \<Rightarrow> 'a::linorder"
  assumes "sorted_wrt (<) xs"
  shows "sorted_wrt (\<lambda>i j. f i < f j \<or> (f i = f j \<and> i < j)) (sort_key f xs)"
  using assms
proof (induction xs)
  case Nil
  then show ?case by simp
next
  case (Cons x xs)
  have "\<forall>y\<in>set (sort_key f xs). x < y" using Cons.prems by simp
  moreover have "sorted_wrt (\<lambda>i j. f i < f j \<or> (f i = f j \<and> i < j)) (sort_key f xs)"
    using Cons by simp
  ultimately show ?case
    by (simp add: sort_key_simps insort_key_stable_order)
qed

text \<open>
  C7. For every sequence of orderable values, \<open>argsort\<close> returns a permutation of the indices
  \<open>0..N-1\<close> along which the values ascend, and indices of equal values keep their original
  (ascending) order; \<open>argsort [] = []\<close>, \<open>argsort [3,1,2] = [1,2,0]\<close> and
  \<open>argsort [8,6,7,5,3,0,9] = [5,4,3,1,2,0,6]\<close>.
\<close>

theorem argsort_stable_permutation:
  "mset (argsort seq) = mset [0..<length seq] \<and>
   sorted (map (\<lambda>i. seq ! i) (argsort seq)) \<and>
   sorted_wrt (\<lambda>i j. seq ! i < seq ! j \<or> (seq ! i = seq ! j \<and> i < j)) (argsort seq) \<and>
   argsort ([] :: int list) = [] \<and>
   argsort [3, 1, 2 :: int] = [1, 2, 0] \<and>
   argsort [8, 6, 7, 5, 3, 0, 9 :: int] = [5, 4, 3, 1, 2, 0, 6]"
proof -
  have perm: "mset (argsort seq) = mset [0..<length seq]"
    by (simp add: argsort_def)
  have srt: "sorted (map (\<lambda>i. seq ! i) (argsort seq))"
    by (simp add: argsort_def)
  have stable: "sorted_wrt (\<lambda>i j. seq ! i < seq ! j \<or> (seq ! i = seq ! j \<and> i < j)) (argsort seq)"
    unfolding argsort_def by (rule sort_key_stable_order) simp
  have e0: "argsort ([] :: int list) = []"
    by (simp add: argsort_def)
  have e1: "argsort [3, 1, 2 :: int] = [1, 2, 0]"
    by (simp add: argsort_def upt_rec)
  have e2: "argsort [8, 6, 7, 5, 3, 0, 9 :: int] = [5, 4, 3, 1, 2, 0, 6]"
    by (simp add: argsort_def upt_rec)
  show ?thesis using perm srt stable e0 e1 e2 by blast
qed

section \<open>Two-record trees where the queries go wrong\<close>

lemma sqrt_25: "sqrt 25 = 5"
  by (rule real_sqrt_unique) simp_all

lemma sqrt_16: "sqrt 16 = 4"
  by (rule real_sqrt_unique) simp_all

lemma build_two_equal_lat:
  "build_tree [tree_at 0 0, tree_at 0 4] 0 =
     KDTNode (tree_at 0 4) 0 (KDTNode (tree_at 0 0) 0 NoNode NoNode) NoNode"
  by (simp add: build_tree.simps axis_def tree_at_def Let_def)

lemma build_two_far:
  "build_tree [tree_at (-1) 0, tree_at 0 4] 0 =
     KDTNode (tree_at 0 4) 0 (KDTNode (tree_at (-1) 0) 0 NoNode NoNode) NoNode"
  by (simp add: build_tree.simps axis_def tree_at_def Let_def)

text \<open>
  C1 fails on the code. Built from the records at (lat -1, lon 0) and (lat 0, lon 4), the
  tree has the second record at the root and the first in its left subtree. For the query
  (3, 0) the root is at distance 5; the far-side test compares the squared plane distance
  \<open>(0 - 3)\<^sup>2 = 9\<close> with the unsquared best distance 5, so the left subtree is skipped and
  \<open>get_nearest\<close> returns the root although the other record is at distance 4.
\<close>

theorem get_nearest_misses_nearer_record:
  "get_nearest (KDTree_init [tree_at (-1) 0, tree_at 0 4]) 3 0 = Some (tree_at 0 4) \<and>
   euclid_dist (tree_at 0 4) 3 0 = 5 \<and>
   euclid_dist (tree_at (-1) 0) 3 0 = 4"
  unfolding KDTree_init_def build_two_far
  by (simp add: get_nearest_def euclid_dist_def Let_def tree_at_def sqrt_25 sqrt_16)

text \<open>
  C2 fails on the code. Built from the records at (0, 0) and (0, 4), which share their
  latitude, the tree keeps (0, 0) in the left subtree of a root with pivot 0; \<open>lookup\<close> of
  (0, 0) compares \<open>0 < 0\<close>, goes right and returns False for a stored record.
\<close>

theorem lookup_misses_stored_record:
  "lookup (KDTree_init [tree_at 0 0, tree_at 0 4]) (lat (tree_at 0 0)) (lon (tree_at 0 0)) = False"
  unfolding KDTree_init_def build_two_equal_lat
  by (simp add: lookup_def tree_at_def round5_def round_half_even_def)

text \<open>
  C3 fails on the code. In the same tree the left subtree of the root holds a record whose
  latitude equals the pivot, so the partition invariant does not hold.
\<close>

theorem left_subtree_holds_pivot_value:
  "KDTree_init [tree_at 0 0, tree_at 0 4] =
     KDTNode (tree_at 0 4) 0 (KDTNode (tree_at 0 0) 0 NoNode NoNode) NoNode \<and>
   \<not> partition_invariant 0 (KDTree_init [tree_at 0 0, tree_at 0 4])"
  unfolding KDTree_init_def build_two_equal_lat
  by (simp add: axis_def tree_at_def)

section \<open>What holds of the partition and of lookup\<close>

lemma sorted_take_le_nth:
  fixes f :: "'a \<Rightarrow> real"
  assumes "sorted (map f s)" and "m < length s" and "x \<in> set (take m s)"
  shows "f x \<le> f (s ! m)"
proof -
  obtain i where i: "i < m" "x = s ! i"
    using assms(2,3) by (auto simp: in_set_conv_nth)
  have "map f s ! i \<le> map f s ! m"
    using assms(1,2) i(1) by (intro sorted_nth_mono) simp_all
  then show ?thesis using assms(2) i by simp
qed

lemma sorted_nth_le_drop:
  fixes f :: "'a \<Rightarrow> real"
  assumes "sorted (map f s)" and "m < length s" and "x \<in> set (drop (m + 1) s)"
  shows "f (s ! m) \<le> f x"
proof -
  obtain k where k: "k < length (drop (m + 1) s)" "x = drop (m + 1) s ! k"
    using assms(3) by (metis in_set_conv_nth)
  define i where "i = k"
  have i: "m + 1 + i < length s" "x = s ! (m + 1 + i)"
    using k assms(2) by (simp_all add: i_def)
  have "map f s ! m \<le> map f s ! (m + 1 + i)"
    using assms(1) i(1) by (intro sorted_nth_mono) simp_all
  then show ?thesis using assms(2) i by simp
qed

lemma set_records_build_tree: "set (records (build_tree data depth)) = set data"
  using mset_records_build_tree[of data depth] by (rule mset_eq_setD)

lemma build_tree_weak_partition: "weak_partition depth (build_tree data depth)"
proof (induction data depth rule: build_tree.induct)
  case (1 data depth)
  show ?case
  proof (cases "data = []")
    case True
    then show ?thesis by (simp add: build_tree_Nil)
  next
    case False
    define f where "f = axis (depth mod 2)"
    define s where "s = sort_key f data"
    define m where "m = length data div 2"
    have srt: "sorted (map f s)" by (simp add: s_def)
    have m: "m < length s" using False by (simp add: s_def m_def)
    have l: "weak_partition (depth + 1) (build_tree (take m s) (depth + 1))"
      using "1.IH"(1)[OF False refl refl refl refl refl] by (simp add: s_def f_def m_def)
    have r: "weak_partition (depth + 1) (build_tree (drop (m + 1) s) (depth + 1))"
      using "1.IH"(2)[OF False refl refl refl refl refl] by (simp add: s_def f_def m_def)
    have le: "list_all (\<lambda>x. f x \<le> f (s ! m)) (records (build_tree (take m s) (depth + 1)))"
      unfolding list_all_iff set_records_build_tree
      using sorted_take_le_nth[OF srt m] by blast
    have ge: "list_all (\<lambda>x. f (s ! m) \<le> f x) (records (build_tree (drop (m + 1) s) (depth + 1)))"
      unfolding list_all_iff set_records_build_tree
      using sorted_nth_le_drop[OF srt m] by blast
    have "build_tree data depth =
        KDTNode (s ! m) (f (s ! m)) (build_tree (take m s) (depth + 1))
          (build_tree (drop (m + 1) s) (depth + 1))"
      by (simp add: build_tree_node[OF False] s_def f_def m_def)
    then show ?thesis
      using l r le ge by (simp add: f_def)
  qed
qed

lemma lookup_recursive_sound:
  "lookup_recursive kd la lo depth \<Longrightarrow>
   \<exists>t\<in>set (records kd). round5 la = round5 (lat t) \<and> round5 lo = round5 (lon t)"
proof (induction kd arbitrary: depth)
  case NoNode
  then show ?case by simp
next
  case (KDTNode t pivot l r)
  show ?case
  proof (cases "round5 la = round5 (lat t) \<and> round5 lo = round5 (lon t)")
    case True
    then show ?thesis by auto
  next
    case False
    then have "lookup_recursive l la lo (depth + 1) \<or> lookup_recursive r la lo (depth + 1)"
      using KDTNode.prems by (auto simp: Let_def split: if_splits)
    then show ?thesis
      using KDTNode.IH by fastforce
  qed
qed

lemma lookup_sound:
  assumes "\<forall>t\<in>set (records kd). \<not> (round5 la = round5 (lat t) \<and> round5 lo = round5 (lon t))"
  shows "lookup kd la lo = False"
  using assms lookup_recursive_sound[of kd la lo 0] unfolding lookup_def by blast

section \<open>Ties in get_nearest\<close>









section \<open>The caller's list after construction\<close>




section \<open>Which operations raise\<close>






















end
